theory Spec2Isabelle
  imports Complex_Main "HOL-Library.Sublist"
begin

section \<open>The resilient session: modules/common.py, class session\<close>

text \<open>
  Timestamps and intervals are Python floats in the source. They are modelled as rationals:
  the properties below only compare and copy them, so rounding plays no part.
\<close>

type_synonym time = rat

record response =
  status_code :: int
  body :: string

text \<open>
  What one invocation of \<open>super(session, self).request(method, url, **kwargs)\<close> can do:
  return a response, raise a \<open>requests.RequestException\<close> (the only exception the retry
  loop catches), or raise something else (which the loop lets through).
\<close>

datatype outcome =
    Returns response
  | RaisesRequestException string
  | RaisesOther string

datatype exn = ValueError | Uncaught string

datatype log_entry =
    RetryStatus int
  | RequestError string
  | FetchFailed string int

record session =
  DEFAULT_TIMEOUT :: time
  RETRY_CODES :: "int list"
  MAX_RETRIES :: int
  GET_RATE_LIMIT :: time
  POST_RATE_LIMIT :: time
  last_request_time :: time

text \<open>
  The world outside the session object: the clock read by \<open>time.time()\<close>, the number of
  invocations of the underlying transport so far, and what \<open>logger.error\<close> has recorded.
\<close>

record world =
  now :: time
  calls :: nat
  logged :: "log_entry list"

text \<open>
  The underlying transport: for the k-th invocation (counted from 0) with the given method, url
  and timeout, what it does and how long it takes.
\<close>

type_synonym transport = "nat \<Rightarrow> string \<Rightarrow> string \<Rightarrow> time \<Rightarrow> outcome \<times> time"

text \<open>\<open>time.sleep(d)\<close> raises ValueError for a negative length and otherwise lets d pass.\<close>

definition sleep :: "time \<Rightarrow> world \<Rightarrow> exn + world" where
  "sleep d w = (if d < 0 then Inl ValueError else Inr (w\<lparr>now := now w + d\<rparr>))"

text \<open>
  The sleep before a retry:
  \<open>if method == 'GET': time.sleep(self.GET_RATE_LIMIT) elif method == 'POST': time.sleep(self.POST_RATE_LIMIT)\<close>.
\<close>

definition retry_sleep :: "session \<Rightarrow> string \<Rightarrow> world \<Rightarrow> exn + world" where
  "retry_sleep s m w =
     (if m = ''GET'' then sleep (GET_RATE_LIMIT s) w
      else if m = ''POST'' then sleep (POST_RATE_LIMIT s) w
      else Inr w)"

text \<open>The result of one pass through the body of \<open>while retries < self.MAX_RETRIES\<close>.\<close>

datatype step =
    Retry session world
  | Stop "exn + response option" session world

definition attempt :: "transport \<Rightarrow> string \<Rightarrow> string \<Rightarrow> time \<Rightarrow> session \<Rightarrow> world \<Rightarrow> step" where
  "attempt tr m u t s w =
     (case tr (calls w) m u t of (out, d) \<Rightarrow>
        let w1 = w\<lparr>now := now w + d, calls := Suc (calls w)\<rparr> in
        (case out of
           Returns r \<Rightarrow>
             let s1 = s\<lparr>last_request_time := now w1\<rparr> in
             if status_code r \<in> set (RETRY_CODES s1) then
               (let w2 = w1\<lparr>logged := logged w1 @ [RetryStatus (status_code r)]\<rparr> in
                case retry_sleep s1 m w2 of
                  Inl e \<Rightarrow> Stop (Inl e) s1 w2
                | Inr w3 \<Rightarrow> Retry s1 w3)
             else Stop (Inr (Some r)) s1 w1
         | RaisesRequestException e \<Rightarrow>
             (let w2 = w1\<lparr>logged := logged w1 @ [RequestError e]\<rparr> in
              case retry_sleep s m w2 of
                Inl x \<Rightarrow> Stop (Inl x) s w2
              | Inr w3 \<Rightarrow> Retry s w3)
         | RaisesOther e \<Rightarrow> Stop (Inl (Uncaught e)) s w1))"

lemma attempt_Retry_MAX_RETRIES:
  "attempt tr m u t s w = Retry s' w' \<Longrightarrow> MAX_RETRIES s' = MAX_RETRIES s"
  by (auto simp: attempt_def Let_def split: prod.splits outcome.splits if_splits sum.splits)

function request_loop ::
  "transport \<Rightarrow> string \<Rightarrow> string \<Rightarrow> time \<Rightarrow> int \<Rightarrow> session \<Rightarrow> world
     \<Rightarrow> (exn + response option) \<times> session \<times> world" where
  "request_loop tr m u t retries s w =
     (if retries < MAX_RETRIES s then
        (case attempt tr m u t s w of
           Retry s' w' \<Rightarrow> request_loop tr m u t (retries + 1) s' w'
         | Stop res s' w' \<Rightarrow> (res, s', w'))
      else (Inr None, s, w\<lparr>logged := logged w @ [FetchFailed u (MAX_RETRIES s)]\<rparr>))"
  by pat_completeness auto
termination
  by (relation "measure (\<lambda>(tr, m, u, t, retries, s, w). nat (MAX_RETRIES s - retries))")
     (auto dest: attempt_Retry_MAX_RETRIES)

declare request_loop.simps [simp del]

text \<open>
  \<open>if 'timeout' not in kwargs: kwargs['timeout'] = self.DEFAULT_TIMEOUT\<close>; of the keyword
  arguments only \<open>timeout\<close> is read here (None: the caller passed none).
\<close>

definition effective_timeout :: "session \<Rightarrow> time option \<Rightarrow> time" where
  "effective_timeout s kw_timeout = (case kw_timeout of None \<Rightarrow> DEFAULT_TIMEOUT s | Some x \<Rightarrow> x)"

text \<open>\<open>session.request(method, url, **kwargs)\<close>.\<close>

definition request ::
  "transport \<Rightarrow> session \<Rightarrow> world \<Rightarrow> string \<Rightarrow> string \<Rightarrow> time option
     \<Rightarrow> (exn + response option) \<times> session \<times> world" where
  "request tr s w m u kw_timeout =
     (let t = effective_timeout s kw_timeout;
          elapsed_time = now w - last_request_time s;
          slept =
            (if m = ''GET'' \<and> elapsed_time < GET_RATE_LIMIT s
               then sleep (GET_RATE_LIMIT s - elapsed_time) w
             else if m = ''POST'' \<and> elapsed_time < POST_RATE_LIMIT s
               then sleep (POST_RATE_LIMIT s - elapsed_time) w
             else Inr w)
      in case slept of
           Inl e \<Rightarrow> (Inl e, s, w)
         | Inr w0 \<Rightarrow> request_loop tr m u t 0 s w0)"

definition get :: "transport \<Rightarrow> session \<Rightarrow> world \<Rightarrow> string \<Rightarrow> time option
     \<Rightarrow> (exn + response option) \<times> session \<times> world" where
  "get tr s w u kw_timeout = request tr s w ''GET'' u kw_timeout"

definition post :: "transport \<Rightarrow> session \<Rightarrow> world \<Rightarrow> string \<Rightarrow> time option
     \<Rightarrow> (exn + response option) \<times> session \<times> world" where
  "post tr s w u kw_timeout = request tr s w ''POST'' u kw_timeout"

subsection \<open>Vocabulary for the properties of the session\<close>

text \<open>An outcome after which the loop goes round again.\<close>

definition retryable :: "session \<Rightarrow> outcome \<Rightarrow> bool" where
  "retryable s out =
     (case out of
        Returns r \<Rightarrow> status_code r \<in> set (RETRY_CODES s)
      | RaisesRequestException e \<Rightarrow> True
      | RaisesOther e \<Rightarrow> False)"

text \<open>The retry sleep of method m does not raise: its interval is not negative.\<close>

definition sleep_ok :: "session \<Rightarrow> string \<Rightarrow> bool" where
  "sleep_ok s m =
     (if m = ''GET'' then 0 \<le> GET_RATE_LIMIT s
      else if m = ''POST'' then 0 \<le> POST_RATE_LIMIT s
      else True)"

text \<open>The session object and the world as one pass through the loop body leaves them.\<close>

fun step_session :: "step \<Rightarrow> session" where
  "step_session (Retry s w) = s"
| "step_session (Stop res s w) = s"

fun step_world :: "step \<Rightarrow> world" where
  "step_world (Retry s w) = w"
| "step_world (Stop res s w) = w"

text \<open>The session that \<open>__init__\<close> builds from its default arguments.\<close>

definition default_session :: session where
  "default_session =
     \<lparr>DEFAULT_TIMEOUT = 60, RETRY_CODES = [429, 503], MAX_RETRIES = 3,
      GET_RATE_LIMIT = 1 / 100, POST_RATE_LIMIT = 1 / 100, last_request_time = 0\<rparr>"

text \<open>Two transports and a starting world for the concrete cases below.\<close>

definition always_fails :: transport where
  "always_fails k m u t = (RaisesRequestException ''connection refused'', 2)"

definition fails_twice :: transport where
  "fails_twice k m u t =
     (if k = 0 then (RaisesRequestException ''read timed out'', 60)
      else if k = 1 then (Returns \<lparr>status_code = 503, body = ''busy''\<rparr>, 1)
      else (Returns \<lparr>status_code = 200, body = ''ok''\<rparr>, 1))"

definition world0 :: world where
  "world0 = \<lparr>now = 1000, calls = 0, logged = []\<rparr>"

text \<open>The clock reading at which the attempt made in world w completes.\<close>

definition completed_at :: "transport \<Rightarrow> string \<Rightarrow> string \<Rightarrow> time \<Rightarrow> world \<Rightarrow> time" where
  "completed_at tr m u t w = now w + snd (tr (calls w) m u t)"

subsection \<open>The timeline of the attempts of one call\<close>

text \<open>
  The interval of the sleep before a retry: the rate limit of the method, and none for a
  method other than GET and POST.
\<close>

definition retry_interval :: "session \<Rightarrow> string \<Rightarrow> time" where
  "retry_interval s m =
     (if m = ''GET'' then GET_RATE_LIMIT s
      else if m = ''POST'' then POST_RATE_LIMIT s
      else 0)"

text \<open>
  The clock reading at which the first attempt of a call starts: the reading at the call, or
  the end of the rate-limit wait at the head of \<open>request\<close>.
\<close>

definition entry_clock :: "session \<Rightarrow> world \<Rightarrow> string \<Rightarrow> time" where
  "entry_clock s w m =
     (let elapsed_time = now w - last_request_time s in
      if m = ''GET'' \<and> elapsed_time < GET_RATE_LIMIT s then now w + (GET_RATE_LIMIT s - elapsed_time)
      else if m = ''POST'' \<and> elapsed_time < POST_RATE_LIMIT s then now w + (POST_RATE_LIMIT s - elapsed_time)
      else now w)"

text \<open>
  The clock reading at which attempt i of a call starts, when the first attempt starts at
  reading b and is invocation c of the transport, and every attempt before attempt i was
  retried after a sleep of p: each attempt takes the time its invocation takes.
\<close>

primrec start_of ::
  "transport \<Rightarrow> string \<Rightarrow> string \<Rightarrow> time \<Rightarrow> time \<Rightarrow> time \<Rightarrow> nat \<Rightarrow> nat \<Rightarrow> time" where
  "start_of tr m u t p b c 0 = b"
| "start_of tr m u t p b c (Suc i) = start_of tr m u t p b c i + snd (tr (c + i) m u t) + p"

text \<open>The clock reading at which attempt i completes.\<close>

definition completed_of ::
  "transport \<Rightarrow> string \<Rightarrow> string \<Rightarrow> time \<Rightarrow> time \<Rightarrow> time \<Rightarrow> nat \<Rightarrow> nat \<Rightarrow> time" where
  "completed_of tr m u t p b c i = start_of tr m u t p b c i + snd (tr (c + i) m u t)"

fun is_response :: "outcome \<Rightarrow> bool" where
  "is_response (Returns r) = True"
| "is_response (RaisesRequestException e) = False"
| "is_response (RaisesOther e) = False"

text \<open>
  Among the first n attempts of a call whose first attempt is invocation c, the last one that
  yielded a response (None: no attempt did).
\<close>

primrec last_response ::
  "transport \<Rightarrow> string \<Rightarrow> string \<Rightarrow> time \<Rightarrow> nat \<Rightarrow> nat \<Rightarrow> nat option" where
  "last_response tr m u t c 0 = None"
| "last_response tr m u t c (Suc n) =
     (if is_response (fst (tr (c + n) m u t)) then Some n else last_response tr m u t c n)"

section \<open>Releases: modules/common.py, class releases\<close>

text \<open>
  A release and each of its versions are Python dictionaries. The keys this module reads are
  the fields below; whatever else a dictionary holds is the record's extension. A version has
  \<open>seasons\<close>, \<open>episodes\<close> and \<open>videos\<close>, and a release has them too, so a release is a
  version record extended by its other keys. \<open>type\<close> and \<open>printsize\<close> are keys that this
  module adds: None stands for a key that is not there yet.
\<close>

record version =
  seasons :: "int list"
  episodes :: int
  videos :: int

record 'v release = version +
  title :: string
  resolution :: int
  size_val :: rat
  languages :: "string list"
  cached :: "string list"
  seeders :: int
  source :: string
  versions :: "'v version_scheme list"
  type :: "string option"
  printsize :: "string option"

text \<open>
  Releases are mutable objects that the caller and the list share, so they live in a store:
  a release list is a list of addresses, and the store gives the dictionary at each address.
  The list of versions of a release is taken to belong to that release alone.
\<close>

type_synonym addr = nat

type_synonym ('v, 'r) store = "addr \<Rightarrow> ('v, 'r) release_scheme"

text \<open>
  \<open>list.remove(x)\<close> takes out the first item equal to x and raises ValueError (None here) when
  there is none. The parameter says which items are equal to x.
\<close>

fun list_remove :: "('x \<Rightarrow> bool) \<Rightarrow> 'x list \<Rightarrow> 'x list option" where
  "list_remove eq [] = None"
| "list_remove eq (y # ys) =
     (if eq y then Some ys else map_option ((#) y) (list_remove eq ys))"

text \<open>
  \<open>for version in release['versions'][:]: if <test>: release['versions'].remove(version)\<close>:
  the first list is the snapshot still to visit, the second the list being changed.
\<close>

fun prune_versions :: "('x \<Rightarrow> bool) \<Rightarrow> 'x list \<Rightarrow> 'x list \<Rightarrow> exn + 'x list" where
  "prune_versions test [] cur = Inr cur"
| "prune_versions test (v # snapshot) cur =
     (if test v then
        (case list_remove (\<lambda>y. y = v) cur of
           None \<Rightarrow> Inl ValueError
         | Some cur' \<Rightarrow> prune_versions test snapshot cur')
      else prune_versions test snapshot cur)"

text \<open>
  The loop of the first three branches of \<open>type_filter\<close>:
  \<open>for release in list[:]: if <test>: list.remove(release); continue\<close>, then the loop over
  the versions. Dictionaries are compared by their contents, so \<open>list.remove(release)\<close> takes
  out the first address whose dictionary equals the one of \<open>release\<close>.
\<close>

fun prune ::
  "(('v, 'r) release_scheme \<Rightarrow> bool) \<Rightarrow> ('v version_scheme \<Rightarrow> bool) \<Rightarrow> addr list \<Rightarrow> addr list
     \<Rightarrow> ('v, 'r) store \<Rightarrow> exn + (addr list \<times> ('v, 'r) store)" where
  "prune test_r test_v [] cur h = Inr (cur, h)"
| "prune test_r test_v (a # snapshot) cur h =
     (if test_r (h a) then
        (case list_remove (\<lambda>b. h b = h a) cur of
           None \<Rightarrow> Inl ValueError
         | Some cur' \<Rightarrow> prune test_r test_v snapshot cur' h)
      else
        (case prune_versions test_v (versions (h a)) (versions (h a)) of
           Inl x \<Rightarrow> Inl x
         | Inr vs \<Rightarrow> prune test_r test_v snapshot cur (h(a := (h a)\<lparr>versions := vs\<rparr>))))"

text \<open>\<open>for release in list: release['type'] = ty\<close>.\<close>

fun tag_all :: "string \<Rightarrow> addr list \<Rightarrow> ('v, 'r) store \<Rightarrow> ('v, 'r) store" where
  "tag_all ty [] h = h"
| "tag_all ty (a # as) h = tag_all ty as (h(a := (h a)\<lparr>type := Some ty\<rparr>))"

text \<open>
  The loop of the last branch (lines 282 to 290): here the tagging loop stands inside the body
  of the loop over the snapshot, after the loop over the versions, and runs over the list as it
  is at that moment.
\<close>

fun prune_tagging ::
  "(('v, 'r) release_scheme \<Rightarrow> bool) \<Rightarrow> ('v version_scheme \<Rightarrow> bool) \<Rightarrow> addr list \<Rightarrow> addr list
     \<Rightarrow> ('v, 'r) store \<Rightarrow> exn + (addr list \<times> ('v, 'r) store)" where
  "prune_tagging test_r test_v [] cur h = Inr (cur, h)"
| "prune_tagging test_r test_v (a # snapshot) cur h =
     (if test_r (h a) then
        (case list_remove (\<lambda>b. h b = h a) cur of
           None \<Rightarrow> Inl ValueError
         | Some cur' \<Rightarrow> prune_tagging test_r test_v snapshot cur' h)
      else
        (case prune_versions test_v (versions (h a)) (versions (h a)) of
           Inl x \<Rightarrow> Inl x
         | Inr vs \<Rightarrow>
             prune_tagging test_r test_v snapshot cur
               (tag_all ''show'' cur (h(a := (h a)\<lparr>versions := vs\<rparr>)))))"

text \<open>
  The four tests, each applied to a release and to a version alike. \<open>s\<close> is the list of
  requested seasons: \<open>seasons = set(s)\<close>, while \<open>len(s)\<close> counts the list. \<open>len(s) / 2\<close> is the
  true division of Python, exact on these integers.
\<close>

definition no_videos :: "'a version_scheme \<Rightarrow> bool" where
  "no_videos x = (videos x = 0)"

definition misses_seasons :: "int list \<Rightarrow> 'a version_scheme \<Rightarrow> bool" where
  "misses_seasons s x =
     (rat_of_nat (card (set s - set (seasons x))) > rat_of_nat (length s) / 2 \<or> episodes x \<le> 1)"

definition not_a_season :: "int list \<Rightarrow> 'a version_scheme \<Rightarrow> bool" where
  "not_a_season s x = (set s - set (seasons x) \<noteq> {} \<or> episodes x \<le> 1)"

definition not_an_episode :: "int list \<Rightarrow> 'a version_scheme \<Rightarrow> bool" where
  "not_an_episode s x = (set s - set (seasons x) \<noteq> {} \<or> \<not> episodes x = 1)"

text \<open>\<open>not e\<close> for the requested episode: None and 0 are false in Python.\<close>

definition falsy :: "int option \<Rightarrow> bool" where
  "falsy e = (e = None \<or> e = Some 0)"

text \<open>\<open>for release in list: release['type'] = ty; return list\<close> after a loop that did not raise.\<close>

definition tagged ::
  "string \<Rightarrow> exn + (addr list \<times> ('v, 'r) store) \<Rightarrow> exn + (addr list \<times> ('v, 'r) store)" where
  "tagged ty res = (case res of Inl x \<Rightarrow> Inl x | Inr (l, h) \<Rightarrow> Inr (l, tag_all ty l h))"

definition type_filter ::
  "('v, 'r) store \<Rightarrow> addr list \<Rightarrow> string \<Rightarrow> int list \<Rightarrow> int option
     \<Rightarrow> exn + (addr list \<times> ('v, 'r) store)" where
  "type_filter h list ty s e =
     (if ty = ''movie'' then tagged ''movie'' (prune no_videos no_videos list list h)
      else if length s > 1 then tagged ''show'' (prune (misses_seasons s) (misses_seasons s) list list h)
      else if falsy e then tagged ''show'' (prune (not_a_season s) (not_a_season s) list list h)
      else prune_tagging (not_an_episode s) (not_an_episode s) list list h)"

subsection \<open>Vocabulary for the properties of the type filter\<close>

text \<open>A release with its versions filtered: those that the test rejects are gone.\<close>

definition keep_versions :: "('v version_scheme \<Rightarrow> bool) \<Rightarrow> ('v, 'r) release_scheme \<Rightarrow> ('v, 'r) release_scheme" where
  "keep_versions test_v r = r\<lparr>versions := filter (\<lambda>v. \<not> test_v v) (versions r)\<rparr>"

text \<open>A test on releases that does not read the keys \<open>versions\<close> and \<open>type\<close>.\<close>

definition ignores_versions :: "(('v, 'r) release_scheme \<Rightarrow> bool) \<Rightarrow> bool" where
  "ignores_versions test_r = (\<forall>r vs ty. test_r (r\<lparr>versions := vs\<rparr>) = test_r r \<and> test_r (r\<lparr>type := ty\<rparr>) = test_r r)"

text \<open>
  The store that the loop of the last branch leaves, when releases \<open>pre\<close> have been kept so
  far and the snapshot \<open>snap\<close> is still to visit: the versions of every release that passes are
  filtered, and from the first release that passes on, every release still in the list is
  tagged.
\<close>

definition tagging_store ::
  "(('v, 'r) release_scheme \<Rightarrow> bool) \<Rightarrow> ('v version_scheme \<Rightarrow> bool) \<Rightarrow> addr list \<Rightarrow> addr list
     \<Rightarrow> ('v, 'r) store \<Rightarrow> ('v, 'r) store" where
  "tagging_store test_r test_v pre snap h =
     (\<lambda>b. let r = (if b \<in> set snap \<and> \<not> test_r (h b) then keep_versions test_v (h b) else h b)
          in if (\<exists>a\<in>set snap. \<not> test_r (h a))
                \<and> (b \<in> set pre \<or> b \<in> set (dropWhile (\<lambda>a. test_r (h a)) snap))
             then r\<lparr>type := Some ''show''\<rparr> else r)"

text \<open>
  The test of the multi-season branch in the words of the specification: drop when
  \<open>|requestedSeasons - seasons| > |requestedSeasons| / 2\<close> or \<open>episodes <= 1\<close>, the requested
  seasons being a set.
\<close>

definition spec_multi_season_drop :: "int list \<Rightarrow> 'a version_scheme \<Rightarrow> bool" where
  "spec_multi_season_drop s x =
     (rat_of_nat (card (set s - set (seasons x))) > rat_of_nat (card (set s)) / 2 \<or> episodes x \<le> 1)"

text \<open>
  The condition of the single-episode request in the words of the specification:
  \<open>episodes == 1\<close> and a seasons set with no elements outside \<open>{s}\<close>.
\<close>

definition spec_single_episode_keeps :: "int \<Rightarrow> 'a version_scheme \<Rightarrow> bool" where
  "spec_single_episode_keeps x r = (episodes r = 1 \<and> set (seasons r) \<subseteq> {x})"

text \<open>What the last branch tests instead: the requested season is among the seasons.\<close>

definition single_episode_of :: "int \<Rightarrow> 'a version_scheme \<Rightarrow> bool" where
  "single_episode_of x r = (x \<in> set (seasons r) \<and> episodes r = 1)"

text \<open>Releases for the concrete cases below.\<close>

definition example_release :: "string \<Rightarrow> int list \<Rightarrow> int \<Rightarrow> version list \<Rightarrow> (unit, unit) release_scheme" where
  "example_release t ss n vs =
     \<lparr>seasons = ss, episodes = n, videos = n, title = t, resolution = 1080,
      size_val = 3 / 2, languages = [''EN''], cached = [''RD''], seeders = 12, source = ''[torrentio]'',
      versions = vs, type = None, printsize = None\<rparr>"

text \<open>
  For requested seasons 1 to 4: a release of seasons 1 and 2 with two versions at address 0,
  and a release of season 1 alone everywhere else.
\<close>

definition season_store :: "(unit, unit) store" where
  "season_store a =
     (if a = 0 then
        example_release ''Show.S01-S02'' [1, 2] 5
          [\<lparr>seasons = [1, 2, 3], episodes = 8, videos = 8\<rparr>, \<lparr>seasons = [1], episodes = 1, videos = 1\<rparr>]
      else example_release ''Show.S01'' [1] 5 [])"

text \<open>
  For episode 3 of season 1: a single episode with two versions at address 0, a season pack at
  address 1, and a single episode filed under seasons 1 and 2 everywhere else.
\<close>

definition episode_store :: "(unit, unit) store" where
  "episode_store a =
     (if a = 0 then
        example_release ''Show.S01E03'' [1] 1
          [\<lparr>seasons = [1], episodes = 1, videos = 1\<rparr>, \<lparr>seasons = [1], episodes = 10, videos = 10\<rparr>]
      else if a = 1 then example_release ''Show.S01.Complete'' [1] 10 []
      else example_release ''Show.S01E03.S02E03'' [1, 2] 1 [])"

section \<open>File names: modules/common.py, class match\<close>

text \<open>
  A file name is a \<open>string\<close>, one \<open>char\<close> for each character of the Python string. The
  characters of HOL are the 256 eight-bit ones; among them only the ASCII letters have another
  case that a pattern letter of this module could match under \<open>regex.I\<close>.
\<close>

definition lower :: "char \<Rightarrow> char" where
  "lower c =
     (case map_of (zip ''ABCDEFGHIJKLMNOPQRSTUVWXYZ'' ''abcdefghijklmnopqrstuvwxyz'') c of
        None \<Rightarrow> c
      | Some d \<Rightarrow> d)"








subsection \<open>The words of the specification for \<open>isVideo\<close>\<close>







section \<open>Ranking: \<open>releases.sort\<close>\<close>





subsection \<open>The words of the specification for the ranker\<close>






section \<open>Listing: \<open>releases.print\<close>\<close>

text \<open>
  \<open>str\<close> of an integer: its decimal digits, after a minus sign when it is negative. The index
  of \<open>enumerate\<close> is a natural number.
\<close>

definition digit :: "nat \<Rightarrow> char" where
  "digit n = ''0123456789'' ! n"

function str_nat :: "nat \<Rightarrow> string" where
  "str_nat n = (if n < 10 then [digit n] else str_nat (n div 10) @ [digit (n mod 10)])"
  by pat_completeness auto

termination
  by (relation "measure id") auto

declare str_nat.simps [simp del]

definition str_int :: "int \<Rightarrow> string" where
  "str_int i = (if i < 0 then CHR ''-'' # str_nat (nat (- i)) else str_nat (nat i))"

text \<open>\<open>sep.join(items)\<close>.\<close>

fun join :: "string \<Rightarrow> string list \<Rightarrow> string" where
  "join sep [] = []"
| "join sep [x] = x"
| "join sep (x # y # ys) = x @ sep @ join sep (y # ys)"

text \<open>The seven running maxima of the first loop.\<close>

record widths =
  longest_res :: nat
  longest_cached :: nat
  longest_title :: nat
  longest_size :: nat
  longest_langs :: nat
  longest_index :: nat
  longest_seeders :: nat

text \<open>\<open>if len(x) > longest: longest = len(x)\<close>.\<close>

definition longer :: "string \<Rightarrow> nat \<Rightarrow> nat" where
  "longer x longest = (if length x > longest then length x else longest)"

text \<open>
  The body of the first loop. It stores \<open>str(round(release['size'], 2))\<close> under the key
  \<open>printsize\<close> of the release and then updates the maxima. The rendering of a rounded float is
  not part of this module: it is the parameter \<open>str_round\<close>, from the size to the string.
\<close>

definition measure_release ::
  "(rat \<Rightarrow> string) \<Rightarrow> nat \<Rightarrow> addr \<Rightarrow> widths \<times> ('v, 'r) store \<Rightarrow> widths \<times> ('v, 'r) store" where
  "measure_release str_round index a st =
     (case st of (W, h) \<Rightarrow>
        let h1 = h(a := (h a)\<lparr>printsize := Some (str_round (size_val (h a)))\<rparr>);
            release = h1 a;
            printed = (case printsize release of None \<Rightarrow> [] | Some p \<Rightarrow> p)
        in (\<lparr>longest_res = longer (str_int (resolution release)) (longest_res W),
             longest_cached = longer (join ''/'' (cached release)) (longest_cached W),
             longest_title = longer (title release) (longest_title W),
             longest_size = longer printed (longest_size W),
             longest_langs = longer (join ''/'' (languages release)) (longest_langs W),
             longest_index = longer (str_nat (index + 1)) (longest_index W),
             longest_seeders = longer (str_int (seeders release)) (longest_seeders W)\<rparr>,
            h1))"

fun first_loop ::
  "(rat \<Rightarrow> string) \<Rightarrow> nat \<Rightarrow> addr list \<Rightarrow> widths \<times> ('v, 'r) store \<Rightarrow> widths \<times> ('v, 'r) store" where
  "first_loop str_round index [] st = st"
| "first_loop str_round index (a # rest) st =
     first_loop str_round (index + 1) rest (measure_release str_round index a st)"

text \<open>
  The string that the second loop builds for one release: \<open>i + resolution + langs + title +
  size + cached + seeders + source\<close>. \<open>' ' * n\<close> is n spaces, and none when n is not positive.
\<close>

definition spaces :: "nat \<Rightarrow> string" where
  "spaces n = replicate n (CHR '' '')"

definition line :: "widths \<Rightarrow> nat \<Rightarrow> ('v, 'r) release_scheme \<Rightarrow> string \<Rightarrow> string" where
  "line W index release printed =
     (let i = str_nat (index + 1) @ '') '' @ spaces (longest_index W - length (str_nat (index + 1)));
          resolution_col = ''resolution: '' @ str_int (resolution release)
            @ spaces (longest_res W - length (str_int (resolution release)));
          langs = '' | languages: '' @ join ''/'' (languages release)
            @ spaces (longest_langs W - length (join ''/'' (languages release)));
          title_col = '' | title: '' @ title release @ spaces (longest_title W - length (title release));
          size_col = '' | size: '' @ printed @ spaces (longest_size W - length printed);
          cached_col = '' | cached: '' @ join ''/'' (cached release)
            @ spaces (longest_cached W - length (join ''/'' (cached release)));
          seeders_col = '' | seeders: '' @ str_int (seeders release)
            @ spaces (longest_seeders W - length (str_int (seeders release)));
          source_col = '' | source: '' @ source release
      in i @ resolution_col @ langs @ title_col @ size_col @ cached_col @ seeders_col @ source_col)"

text \<open>
  The second loop. It reads the key \<open>printsize\<close> of each release; a release without it would
  raise KeyError.
\<close>

fun second_loop ::
  "nat \<Rightarrow> addr list \<Rightarrow> widths \<Rightarrow> ('v, 'r) store \<Rightarrow> string list \<Rightarrow> exn + string list" where
  "second_loop index [] W h strings = Inr strings"
| "second_loop index (a # rest) W h strings =
     (case printsize (h a) of
        None \<Rightarrow> Inl (Uncaught ''KeyError'')
      | Some printed \<Rightarrow> second_loop (index + 1) rest W h (strings @ [line W index (h a) printed]))"

text \<open>\<open>longest_res = 0\<close>, ..., \<open>longest_seeders = 0\<close>.\<close>

definition no_widths :: widths where
  "no_widths =
     \<lparr>longest_res = 0, longest_cached = 0, longest_title = 0, longest_size = 0,
      longest_langs = 0, longest_index = 0, longest_seeders = 0\<rparr>"

text \<open>\<open>releases.print(list)\<close>: the strings returned and the store after the call.\<close>

definition print ::
  "(rat \<Rightarrow> string) \<Rightarrow> addr list \<Rightarrow> ('v, 'r) store \<Rightarrow> exn + (string list \<times> ('v, 'r) store)" where
  "print str_round list h =
     (case first_loop str_round 0 list (no_widths, h) of
        (W, h1) \<Rightarrow>
          (case second_loop 0 list W h1 [] of
             Inl x \<Rightarrow> Inl x
           | Inr strings \<Rightarrow> Inr (strings, h1)))"

subsection \<open>The lines in closed form\<close>

text \<open>The greatest length among the strings of a column, 0 for an empty column.\<close>

definition width :: "string list \<Rightarrow> nat" where
  "width xs = Max (set (0 # map length xs))"

text \<open>A string padded on the right with spaces to a width.\<close>

definition pad :: "nat \<Rightarrow> string \<Rightarrow> string" where
  "pad w x = x @ spaces (w - length x)"

text \<open>The column of a field over the list, and the padded field of line number i.\<close>

definition column :: "(('v, 'r) release_scheme \<Rightarrow> string) \<Rightarrow> addr list \<Rightarrow> ('v, 'r) store \<Rightarrow> string list" where
  "column f list h = map (\<lambda>a. f (h a)) list"

definition field ::
  "(('v, 'r) release_scheme \<Rightarrow> string) \<Rightarrow> addr list \<Rightarrow> ('v, 'r) store \<Rightarrow> nat \<Rightarrow> string" where
  "field f list h i = pad (width (column f list h)) (f (h (list ! i)))"

text \<open>
  The index of line number i, \<open>) \<close> and then the spaces that make up for the longest index.
\<close>

definition index_field :: "nat \<Rightarrow> nat \<Rightarrow> string" where
  "index_field n i =
     str_nat (i + 1) @ '') ''
     @ spaces (width (map (\<lambda>j. str_nat (j + 1)) [0..<n]) - length (str_nat (i + 1)))"

definition rendered :: "(rat \<Rightarrow> string) \<Rightarrow> addr list \<Rightarrow> ('v, 'r) store \<Rightarrow> nat \<Rightarrow> string" where
  "rendered str_round list h i =
     index_field (length list) i
     @ ''resolution: '' @ field (\<lambda>r. str_int (resolution r)) list h i
     @ '' | languages: '' @ field (\<lambda>r. join ''/'' (languages r)) list h i
     @ '' | title: '' @ field title list h i
     @ '' | size: '' @ field (\<lambda>r. str_round (size_val r)) list h i
     @ '' | cached: '' @ field (\<lambda>r. join ''/'' (cached r)) list h i
     @ '' | seeders: '' @ field (\<lambda>r. str_int (seeders r)) list h i
     @ '' | source: '' @ source (h (list ! i))"

text \<open>
  The line of the specification: \<open><index>) <resolution padded> | languages: <langs padded> |
  title: <title padded> | size: <size padded> | cached: <cached padded> | seeders: <seeders
  padded> | source: <source>\<close>.
\<close>

definition spec_line :: "(rat \<Rightarrow> string) \<Rightarrow> addr list \<Rightarrow> ('v, 'r) store \<Rightarrow> nat \<Rightarrow> string" where
  "spec_line str_round list h i =
     str_nat (i + 1) @ '') ''
     @ field (\<lambda>r. str_int (resolution r)) list h i
     @ '' | languages: '' @ field (\<lambda>r. join ''/'' (languages r)) list h i
     @ '' | title: '' @ field title list h i
     @ '' | size: '' @ field (\<lambda>r. str_round (size_val r)) list h i
     @ '' | cached: '' @ field (\<lambda>r. join ''/'' (cached r)) list h i
     @ '' | seeders: '' @ field (\<lambda>r. str_int (seeders r)) list h i
     @ '' | source: '' @ source (h (list ! i))"

text \<open>The store after the call: every release of the list has its \<open>printsize\<close>.\<close>

definition with_printsize :: "(rat \<Rightarrow> string) \<Rightarrow> addr list \<Rightarrow> ('v, 'r) store \<Rightarrow> ('v, 'r) store" where
  "with_printsize str_round list h a =
     (if a \<in> set list then (h a)\<lparr>printsize := Some (str_round (size_val (h a)))\<rparr> else h a)"

text \<open>
  The maxima after the first loop over a list, started at index \<open>index\<close> with the maxima W.
\<close>

definition measured :: "(rat \<Rightarrow> string) \<Rightarrow> nat \<Rightarrow> addr list \<Rightarrow> widths \<Rightarrow> ('v, 'r) store \<Rightarrow> widths" where
  "measured R index list W h =
     \<lparr>longest_res = foldl (\<lambda>w x. longer x w) (longest_res W) (column (\<lambda>r. str_int (resolution r)) list h),
      longest_cached = foldl (\<lambda>w x. longer x w) (longest_cached W) (column (\<lambda>r. join ''/'' (cached r)) list h),
      longest_title = foldl (\<lambda>w x. longer x w) (longest_title W) (column title list h),
      longest_size = foldl (\<lambda>w x. longer x w) (longest_size W) (column (\<lambda>r. R (size_val r)) list h),
      longest_langs = foldl (\<lambda>w x. longer x w) (longest_langs W) (column (\<lambda>r. join ''/'' (languages r)) list h),
      longest_index = foldl (\<lambda>w x. longer x w) (longest_index W) (map (\<lambda>j. str_nat (j + 1)) [index..<index + length list]),
      longest_seeders = foldl (\<lambda>w x. longer x w) (longest_seeders W) (column (\<lambda>r. str_int (seeders r)) list h)\<rparr>"

section \<open>Properties of the resilient session\<close>

lemma retry_sleep_ok:
  "sleep_ok s m \<Longrightarrow> \<exists>w'. retry_sleep s m w = Inr w' \<and> calls w' = calls w \<and> logged w' = logged w"
  by (auto simp: sleep_ok_def retry_sleep_def sleep_def split: if_splits)

lemma sleep_ok_upd [simp]: "sleep_ok (s\<lparr>last_request_time := x\<rparr>) m = sleep_ok s m"
  by (simp add: sleep_ok_def)

lemma retryable_upd [simp]: "retryable (s\<lparr>last_request_time := x\<rparr>) out = retryable s out"
  by (simp add: retryable_def split: outcome.splits)

lemma attempt_retryable:
  assumes "retryable s (fst (tr (calls w) m u t))" and "sleep_ok s m"
  shows "\<exists>s' w'. attempt tr m u t s w = Retry s' w' \<and> calls w' = Suc (calls w)
           \<and> (\<exists>x. s' = s\<lparr>last_request_time := x\<rparr>)"
proof (cases "tr (calls w) m u t")
  case (Pair out d)
  show ?thesis
  proof (cases out)
    case (Returns r)
    let ?s1 = "s\<lparr>last_request_time := now w + d\<rparr>"
    let ?w2 = "w\<lparr>now := now w + d, calls := Suc (calls w),
                 logged := logged w @ [RetryStatus (status_code r)]\<rparr>"
    from assms(2) have "sleep_ok ?s1 m" by simp
    from retry_sleep_ok [OF this, of ?w2] obtain w3 where
      "retry_sleep ?s1 m ?w2 = Inr w3" "calls w3 = Suc (calls w)" by auto
    moreover from assms(1) Pair Returns have "status_code r \<in> set (RETRY_CODES s)"
      by (simp add: retryable_def)
    ultimately show ?thesis using Pair Returns
      by (auto simp: attempt_def Let_def)
  next
    case (RaisesRequestException e)
    let ?w2 = "w\<lparr>now := now w + d, calls := Suc (calls w), logged := logged w @ [RequestError e]\<rparr>"
    from retry_sleep_ok [OF assms(2), of ?w2] obtain w3 where
      "retry_sleep s m ?w2 = Inr w3" "calls w3 = Suc (calls w)" by auto
    then show ?thesis using Pair RaisesRequestException
      by (auto simp: attempt_def Let_def intro: exI [of _ "last_request_time s"])
  next
    case (RaisesOther e)
    with assms(1) Pair show ?thesis by (simp add: retryable_def)
  qed
qed

lemma request_loop_exhausted:
  assumes "sleep_ok s m"
    and "\<forall>i. retries + int i < MAX_RETRIES s \<longrightarrow> retryable s (fst (tr (calls w + i) m u t))"
  shows "fst (request_loop tr m u t retries s w) = Inr None
       \<and> calls (snd (snd (request_loop tr m u t retries s w))) = calls w + nat (MAX_RETRIES s - retries)"
  using assms
proof (induction tr m u t retries s w rule: request_loop.induct)
  case (1 tr m u t retries s w)
  show ?case
  proof (cases "retries < MAX_RETRIES s")
    case False
    then show ?thesis by (simp add: request_loop.simps [of tr m u t retries s w])
  next
    case True
    with "1.prems"(2) [rule_format, of 0] have "retryable s (fst (tr (calls w) m u t))" by simp
    from attempt_retryable [where s=s and tr=tr and w=w and m=m and u=u and t=t, OF this "1.prems"(1)] obtain s' w' x where
      a: "attempt tr m u t s w = Retry s' w'" and c: "calls w' = Suc (calls w)"
      and s': "s' = s\<lparr>last_request_time := x\<rparr>" by blast
    have ok: "sleep_ok s' m" using "1.prems"(1) s' by simp
    have all: "\<forall>i. retries + 1 + int i < MAX_RETRIES s' \<longrightarrow> retryable s' (fst (tr (calls w' + i) m u t))"
    proof (intro allI impI)
      fix i assume "retries + 1 + int i < MAX_RETRIES s'"
      then have "retries + int (Suc i) < MAX_RETRIES s" using s' by simp
      from "1.prems"(2) [rule_format, OF this] show "retryable s' (fst (tr (calls w' + i) m u t))"
        using c s' by simp
    qed
    from "1.IH" [OF True a ok all] True a c s' show ?thesis
      by (simp add: request_loop.simps [of tr m u t retries s w])
  qed
qed

lemma request_loop_first_final:
  assumes "sleep_ok s m"
    and "\<forall>i<k. retryable s (fst (tr (calls w + i) m u t))"
    and "fst (tr (calls w + k) m u t) = Returns r"
    and "status_code r \<notin> set (RETRY_CODES s)"
    and "retries + int k < MAX_RETRIES s"
  shows "fst (request_loop tr m u t retries s w) = Inr (Some r)
       \<and> calls (snd (snd (request_loop tr m u t retries s w))) = calls w + k + 1"
  using assms
proof (induction k arbitrary: retries s w)
  case 0
  then obtain d where "tr (calls w) m u t = (Returns r, d)" by (cases "tr (calls w) m u t") auto
  with 0 show ?case
    by (simp add: request_loop.simps [of tr m u t retries s w] attempt_def Let_def)
next
  case (Suc k)
  from Suc.prems(2) have "retryable s (fst (tr (calls w) m u t))" by (metis add.right_neutral zero_less_Suc)
  from attempt_retryable [where s=s and tr=tr and w=w and m=m and u=u and t=t, OF this Suc.prems(1)] obtain s' w' x where
    a: "attempt tr m u t s w = Retry s' w'" and c: "calls w' = Suc (calls w)"
    and s': "s' = s\<lparr>last_request_time := x\<rparr>" by blast
  have ok: "sleep_ok s' m" using Suc.prems(1) s' by simp
  have all: "\<forall>i<k. retryable s' (fst (tr (calls w' + i) m u t))"
  proof (intro allI impI)
    fix i assume "i < k"
    then have "Suc i < Suc k" by simp
    from Suc.prems(2) [rule_format, OF this] show "retryable s' (fst (tr (calls w' + i) m u t))"
      using c s' by simp
  qed
  have fin: "fst (tr (calls w' + k) m u t) = Returns r" using Suc.prems(3) c by simp
  have nr: "status_code r \<notin> set (RETRY_CODES s')" using Suc.prems(4) s' by simp
  have lt: "retries + 1 + int k < MAX_RETRIES s'" using Suc.prems(5) s' by simp
  from Suc.IH [OF ok all fin nr lt] a c Suc.prems(5) show ?case
    by (simp add: request_loop.simps [of tr m u t retries s w])
qed

lemma request_enters_loop:
  "\<exists>x. request tr s w m u kw = request_loop tr m u (effective_timeout s kw) 0 s (w\<lparr>now := x\<rparr>)"
proof -
  let ?e = "now w - last_request_time s"
  consider (g) "m = ''GET'' \<and> ?e < GET_RATE_LIMIT s"
    | (p) "\<not> (m = ''GET'' \<and> ?e < GET_RATE_LIMIT s)" "m = ''POST'' \<and> ?e < POST_RATE_LIMIT s"
    | (n) "\<not> (m = ''GET'' \<and> ?e < GET_RATE_LIMIT s)" "\<not> (m = ''POST'' \<and> ?e < POST_RATE_LIMIT s)"
    by blast
  then show ?thesis
  proof cases
    case g
    then have "request tr s w m u kw
        = request_loop tr m u (effective_timeout s kw) 0 s (w\<lparr>now := now w + (GET_RATE_LIMIT s - ?e)\<rparr>)"
      by (simp add: request_def Let_def sleep_def)
    then show ?thesis by blast
  next
    case p
    then have "request tr s w m u kw
        = request_loop tr m u (effective_timeout s kw) 0 s (w\<lparr>now := now w + (POST_RATE_LIMIT s - ?e)\<rparr>)"
      by (simp add: request_def Let_def sleep_def)
    then show ?thesis by blast
  next
    case n
    then have "request tr s w m u kw
        = request_loop tr m u (effective_timeout s kw) 0 s (w\<lparr>now := now w\<rparr>)"
      by (auto simp add: request_def Let_def)
    then show ?thesis by blast
  qed
qed

text \<open>
  Claim C1. When every one of the \<open>MAX_RETRIES\<close> attempts of a call to \<open>session.request\<close>
  either raises a \<open>requests.RequestException\<close> or returns a status in \<open>RETRY_CODES\<close>, the
  call returns None, the underlying transport has been invoked exactly \<open>MAX_RETRIES\<close> more
  times, and no exception reaches the caller (the result is \<open>Inr\<close>, not \<open>Inl\<close>). The retry
  sleep must be possible: \<open>time.sleep\<close> raises ValueError on a negative interval, so the rate
  limit of the method in use is taken to be non-negative (\<open>sleep_ok\<close>).
\<close>

theorem request_exhausts_retries:
  assumes "sleep_ok s m"
    and "\<forall>i. int i < MAX_RETRIES s
           \<longrightarrow> retryable s (fst (tr (calls w + i) m u (effective_timeout s kw)))"
  shows "fst (request tr s w m u kw) = Inr None
       \<and> calls (snd (snd (request tr s w m u kw))) = calls w + nat (MAX_RETRIES s)"
proof -
  obtain x where r: "request tr s w m u kw
      = request_loop tr m u (effective_timeout s kw) 0 s (w\<lparr>now := x\<rparr>)"
    using request_enters_loop by blast
  have "\<forall>i. 0 + int i < MAX_RETRIES s
      \<longrightarrow> retryable s (fst (tr (calls (w\<lparr>now := x\<rparr>) + i) m u (effective_timeout s kw)))"
    using assms(2) by simp
  from request_loop_exhausted [where tr=tr and w="w\<lparr>now := x\<rparr>" and u=u
      and t="effective_timeout s kw" and retries=0, OF assms(1) this] r show ?thesis by simp
qed

theorem request_exhausts_retries_witness:
  "fst (request always_fails default_session world0 ''GET'' ''http://source/search'' None) = Inr None
   \<and> calls (snd (snd (request always_fails default_session world0 ''GET'' ''http://source/search'' None))) = 3"
  using request_exhausts_retries [of default_session "''GET''" always_fails world0 "''http://source/search''" None]
  by (simp add: sleep_ok_def retryable_def always_fails_def default_session_def world0_def)

text \<open>
  Claim C4. The first attempt whose response has a status outside \<open>RETRY_CODES\<close> ends the call:
  that response is returned and the transport is not invoked again. Here attempt number k
  (counted from 0, with k below \<open>MAX_RETRIES\<close>) is that attempt and the k attempts before it were
  all retried. The witness is the case of the claim: three retries allowed, a transport that
  fails twice and then succeeds, the success returned after exactly 3 invocations.
\<close>

theorem request_returns_first_final_response:
  assumes "sleep_ok s m"
    and "\<forall>i<k. retryable s (fst (tr (calls w + i) m u (effective_timeout s kw)))"
    and "fst (tr (calls w + k) m u (effective_timeout s kw)) = Returns r"
    and "status_code r \<notin> set (RETRY_CODES s)"
    and "int k < MAX_RETRIES s"
  shows "fst (request tr s w m u kw) = Inr (Some r)
       \<and> calls (snd (snd (request tr s w m u kw))) = calls w + k + 1"
proof -
  obtain x where r: "request tr s w m u kw
      = request_loop tr m u (effective_timeout s kw) 0 s (w\<lparr>now := x\<rparr>)"
    using request_enters_loop by blast
  let ?w = "w\<lparr>now := x\<rparr>"
  have a: "\<forall>i<k. retryable s (fst (tr (calls ?w + i) m u (effective_timeout s kw)))"
    using assms(2) by simp
  have b: "fst (tr (calls ?w + k) m u (effective_timeout s kw)) = Returns r"
    using assms(3) by simp
  have c: "0 + int k < MAX_RETRIES s" using assms(5) by simp
  from request_loop_first_final [where tr=tr and w="?w" and u=u
      and t="effective_timeout s kw" and retries=0, OF assms(1) a b assms(4) c] r show ?thesis by simp
qed

theorem request_returns_first_final_response_witness:
  "fst (request fails_twice default_session world0 ''GET'' ''http://source/search'' None)
     = Inr (Some \<lparr>status_code = 200, body = ''ok''\<rparr>)
   \<and> calls (snd (snd (request fails_twice default_session world0 ''GET'' ''http://source/search'' None))) = 3"
  using request_returns_first_final_response
    [of default_session "''GET''" 2 fails_twice world0 "''http://source/search''" None
        "\<lparr>status_code = 200, body = ''ok''\<rparr>"]
  by (simp add: sleep_ok_def retryable_def fails_twice_def default_session_def world0_def
        less_Suc_eq numeral_2_eq_2)

text \<open>
  One pass through the loop body: an attempt that yields a response (whatever its status) sets
  \<open>last_request_time\<close> to the clock reading taken when that attempt completed, and an attempt
  that ends in an exception leaves it as it was: the assignment stands after the transport call
  inside the \<open>try\<close> block, and the \<open>except\<close> branch has none.
\<close>

lemma attempt_last_request_time:
  "last_request_time (step_session (attempt tr m u t s w))
     = (case fst (tr (calls w) m u t) of
          Returns r \<Rightarrow> completed_at tr m u t w
        | RaisesRequestException e \<Rightarrow> last_request_time s
        | RaisesOther e \<Rightarrow> last_request_time s)"
  by (cases "tr (calls w) m u t")
     (simp add: attempt_def completed_at_def Let_def split: outcome.splits sum.splits)

lemma start_of_shift:
  "start_of tr m u t p b c (Suc i) = start_of tr m u t p (b + snd (tr c m u t) + p) (Suc c) i"
  by (induction i) simp_all

lemma completed_of_shift:
  "completed_of tr m u t p b c (Suc i) = completed_of tr m u t p (b + snd (tr c m u t) + p) (Suc c) i"
  unfolding completed_of_def start_of_shift by simp

lemma completed_of_0: "completed_of tr m u t p b c 0 = b + snd (tr c m u t)"
  by (simp add: completed_of_def)

lemma last_response_shift:
  "last_response tr m u t c (Suc n)
     = (case last_response tr m u t (Suc c) n of
          Some i \<Rightarrow> Some (Suc i)
        | None \<Rightarrow> if is_response (fst (tr c m u t)) then Some 0 else None)"
  by (induction n) simp_all

lemma retry_sleep_Inr:
  "retry_sleep s m w = Inr w' \<Longrightarrow> now w' = now w + retry_interval s m \<and> calls w' = calls w"
  by (auto simp: retry_sleep_def retry_interval_def sleep_def split: if_splits)

lemma attempt_step:
  "calls (step_world (attempt tr m u t s w)) = Suc (calls w)
   \<and> step_session (attempt tr m u t s w)
       = (if is_response (fst (tr (calls w) m u t))
          then s\<lparr>last_request_time := now w + snd (tr (calls w) m u t)\<rparr> else s)"
proof (cases "tr (calls w) m u t")
  case (Pair out d)
  then show ?thesis
    by (cases out)
       (auto simp: attempt_def Let_def split: sum.splits dest: retry_sleep_Inr)
qed

lemma attempt_Retry_now:
  assumes "attempt tr m u t s w = Retry s' w'"
  shows "now w' = now w + snd (tr (calls w) m u t) + retry_interval s m"
proof (cases "tr (calls w) m u t")
  case (Pair out d)
  with assms show ?thesis
    by (cases out)
       (auto simp: attempt_def Let_def retry_interval_def split: sum.splits if_splits
             dest!: retry_sleep_Inr)
qed

lemma retry_interval_upd [simp]:
  "retry_interval (s\<lparr>last_request_time := x\<rparr>) m = retry_interval s m"
  by (simp add: retry_interval_def)

lemma request_loop_last_request_time:
  "calls w \<le> calls (snd (snd (request_loop tr m u t retries s w)))
   \<and> retry_interval (fst (snd (request_loop tr m u t retries s w))) m = retry_interval s m
   \<and> last_request_time (fst (snd (request_loop tr m u t retries s w)))
       = (case last_response tr m u t (calls w)
                (calls (snd (snd (request_loop tr m u t retries s w))) - calls w) of
            None \<Rightarrow> last_request_time s
          | Some i \<Rightarrow> completed_of tr m u t (retry_interval s m) (now w) (calls w) i)"
proof (induction tr m u t retries s w rule: request_loop.induct)
  case (1 tr m u t retries s w)
  let ?out = "fst (tr (calls w) m u t)" and ?d = "snd (tr (calls w) m u t)"
  show ?case
  proof (cases "retries < MAX_RETRIES s")
    case False
    then show ?thesis by (simp add: request_loop.simps [of tr m u t retries s w])
  next
    case True
    note step = attempt_step [of tr m u t s w]
    show ?thesis
    proof (cases "attempt tr m u t s w")
      case (Stop res s' w')
      with step have c: "calls w' = Suc (calls w)"
        and s': "s' = (if is_response ?out then s\<lparr>last_request_time := now w + ?d\<rparr> else s)"
        by simp_all
      have "request_loop tr m u t retries s w = (res, s', w')"
        using True Stop by (simp add: request_loop.simps [of tr m u t retries s w])
      then show ?thesis using c s' by (simp add: completed_of_0)
    next
      case (Retry s' w')
      with step have c: "calls w' = Suc (calls w)"
        and s': "s' = (if is_response ?out then s\<lparr>last_request_time := now w + ?d\<rparr> else s)"
        by simp_all
      from attempt_Retry_now [OF Retry] have n: "now w' = now w + ?d + retry_interval s m" .
      have ri: "retry_interval s' m = retry_interval s m" using s' by simp
      let ?r = "request_loop tr m u t (retries + 1) s' w'"
      have eq: "request_loop tr m u t retries s w = ?r"
        using True Retry by (simp add: request_loop.simps [of tr m u t retries s w])
      from "1.IH" [OF True Retry] have
        le: "calls w' \<le> calls (snd (snd ?r))"
        and ri': "retry_interval (fst (snd ?r)) m = retry_interval s' m"
        and lrt: "last_request_time (fst (snd ?r))
           = (case last_response tr m u t (calls w') (calls (snd (snd ?r)) - calls w') of
                None \<Rightarrow> last_request_time s'
              | Some i \<Rightarrow> completed_of tr m u t (retry_interval s' m) (now w') (calls w') i)"
        by simp_all
      from le c have k: "calls (snd (snd ?r)) - calls w = Suc (calls (snd (snd ?r)) - calls w')"
        by simp
      have "last_request_time (fst (snd ?r))
          = (case last_response tr m u t (calls w) (calls (snd (snd ?r)) - calls w) of
               None \<Rightarrow> last_request_time s
             | Some i \<Rightarrow> completed_of tr m u t (retry_interval s m) (now w) (calls w) i)"
        unfolding k last_response_shift lrt c ri n
        using s' by (simp add: completed_of_shift completed_of_0 split: option.splits)
      with le c ri ri' show ?thesis unfolding eq by simp
    qed
  qed
qed

lemma request_enters_at_entry_clock:
  "request tr s w m u kw
     = request_loop tr m u (effective_timeout s kw) 0 s (w\<lparr>now := entry_clock s w m\<rparr>)"
  by (simp add: request_def entry_clock_def Let_def sleep_def)

text \<open>
  Claim C5, as amended. When a call to \<open>session.request\<close> ends, however it ends,
  \<open>last_request_time\<close> holds the clock reading at which the last attempt of the call that
  yielded a response (a final one or one with a retryable status) completed. An attempt that
  ends in an exception does not update it, and when no attempt of the call yielded a response
  it keeps the value it had before the call. The number of attempts of the call is the number
  of invocations of the transport; the first attempt starts at \<open>entry_clock\<close>, after the
  rate-limit wait, and each later one a retry interval after the attempt before it completed.
\<close>

theorem request_last_request_time:
  "last_request_time (fst (snd (request tr s w m u kw)))
     = (case last_response tr m u (effective_timeout s kw) (calls w)
               (calls (snd (snd (request tr s w m u kw))) - calls w) of
          None \<Rightarrow> last_request_time s
        | Some i \<Rightarrow>
            completed_of tr m u (effective_timeout s kw) (retry_interval s m) (entry_clock s w m)
              (calls w) i)"
  using request_loop_last_request_time
    [of "w\<lparr>now := entry_clock s w m\<rparr>" tr m u "effective_timeout s kw" 0 s]
  by (simp add: request_enters_at_entry_clock cong: option.case_cong)

lemma request_fails_twice:
  "request fails_twice default_session world0 ''GET'' ''http://source/search'' None
     = (Inr (Some \<lparr>status_code = 200, body = ''ok''\<rparr>),
        default_session\<lparr>last_request_time := 53101 / 50\<rparr>,
        \<lparr>now = 53101 / 50, calls = 3,
         logged = [RequestError ''read timed out'', RetryStatus 503]\<rparr>)"
  by (simp add: request_def request_loop.simps attempt_def retry_sleep_def sleep_def Let_def
        fails_twice_def default_session_def world0_def effective_timeout_def)

text \<open>
  At the transport that fails, answers 503 and then answers 200: the three attempts complete
  at the readings 1060, 1061.01 and 1062.02, and the last of them is what the session holds.
\<close>

theorem request_last_request_time_witness:
  "last_request_time
     (fst (snd (request fails_twice default_session world0 ''GET'' ''http://source/search'' None)))
     = completed_of fails_twice ''GET'' ''http://source/search'' 60 (1 / 100) 1000 0 2
   \<and> completed_of fails_twice ''GET'' ''http://source/search'' 60 (1 / 100) 1000 0 2 = 53101 / 50"
  using request_last_request_time
    [of fails_twice default_session world0 "''GET''" "''http://source/search''" None]
  by (simp add: request_fails_twice completed_of_def numeral_2_eq_2 numeral_3_eq_3
        fails_twice_def)

text \<open>
  Claim C5 as stated fails: the first attempt below ends in a connection error at clock
  reading 1002, is retried, and \<open>last_request_time\<close> still holds its initial value 0.
\<close>

theorem failed_attempt_keeps_last_request_time:
  "fst (always_fails (calls world0) ''GET'' ''http://source/search'' 60)
     = RaisesRequestException ''connection refused''
   \<and> completed_at always_fails ''GET'' ''http://source/search'' 60 world0 = 1002
   \<and> last_request_time
        (step_session (attempt always_fails ''GET'' ''http://source/search'' 60 default_session world0))
       = 0"
  by (simp add: attempt_def always_fails_def default_session_def world0_def completed_at_def
        retry_sleep_def sleep_def Let_def)

section \<open>Properties of the type filter\<close>

lemma list_remove_append:
  "\<forall>y\<in>set pre. \<not> eq y \<Longrightarrow> eq v \<Longrightarrow> list_remove eq (pre @ v # rest) = Some (pre @ rest)"
  by (induction pre) auto

lemma prune_versions_append:
  "\<forall>y\<in>set pre. \<not> test y
     \<Longrightarrow> prune_versions test snap (pre @ snap) = Inr (pre @ filter (\<lambda>v. \<not> test v) snap)"
proof (induction snap arbitrary: pre)
  case Nil
  then show ?case by simp
next
  case (Cons v snap)
  show ?case
  proof (cases "test v")
    case True
    with Cons.prems have "\<forall>y\<in>set pre. \<not> y = v" by auto
    then have "list_remove (\<lambda>y. y = v) (pre @ v # snap) = Some (pre @ snap)"
      by (intro list_remove_append) auto
    with True Cons.IH [OF Cons.prems] show ?thesis by simp
  next
    case False
    with Cons.prems have "\<forall>y\<in>set (pre @ [v]). \<not> test y" by auto
    from Cons.IH [OF this] False show ?thesis by simp
  qed
qed

lemma prune_versions_filter:
  "prune_versions test vs vs = Inr (filter (\<lambda>v. \<not> test v) vs)"
  using prune_versions_append [of "[]" test vs] by simp

lemma tag_all_eq:
  "tag_all ty l h = (\<lambda>b. if b \<in> set l then (h b)\<lparr>type := Some ty\<rparr> else h b)"
  by (induction l arbitrary: h) (auto simp: fun_eq_iff)

lemma prune_append:
  assumes "ignores_versions test_r"
    and "\<forall>b\<in>set pre. \<not> test_r (h b)"
  shows "prune test_r test_v snap (pre @ snap) h
       = Inr (pre @ filter (\<lambda>a. \<not> test_r (h a)) snap,
              \<lambda>b. if b \<in> set snap \<and> \<not> test_r (h b) then keep_versions test_v (h b) else h b)"
  using assms(2)
proof (induction snap arbitrary: pre h)
  case Nil
  then show ?case by simp
next
  case (Cons a snap)
  have stable: "\<And>r vs. test_r (r\<lparr>versions := vs\<rparr>) = test_r r"
    using assms(1) by (simp add: ignores_versions_def)
  show ?case
  proof (cases "test_r (h a)")
    case True
    with Cons.prems have "\<forall>b\<in>set pre. \<not> h b = h a" by auto
    then have "list_remove (\<lambda>b. h b = h a) (pre @ a # snap) = Some (pre @ snap)"
      by (intro list_remove_append) auto
    with True Cons.IH [OF Cons.prems] show ?thesis by (auto simp: fun_eq_iff)
  next
    case False
    let ?h = "h(a := keep_versions test_v (h a))"
    have t: "\<And>b. test_r (?h b) = test_r (h b)" by (simp add: keep_versions_def stable)
    from Cons.prems False have "\<forall>b\<in>set (pre @ [a]). \<not> test_r (?h b)" by (auto simp: t simp del: fun_upd_apply)
    from Cons.IH [OF this] False show ?thesis
      by (simp add: prune_versions_filter t keep_versions_def [symmetric] del: fun_upd_apply)
         (auto simp: fun_eq_iff keep_versions_def)
  qed
qed

lemma keep_versions_idem [simp]:
  "keep_versions t (keep_versions t r) = keep_versions t r"
  by (simp add: keep_versions_def)

lemma keep_versions_type [simp]:
  "keep_versions t (r\<lparr>type := x\<rparr>) = (keep_versions t r)\<lparr>type := x\<rparr>"
  by (simp add: keep_versions_def)

lemma prune_tagging_append:
  assumes "ignores_versions test_r"
    and "\<forall>b\<in>set pre. \<not> test_r (h b)"
  shows "prune_tagging test_r test_v snap (pre @ snap) h
       = Inr (pre @ filter (\<lambda>a. \<not> test_r (h a)) snap, tagging_store test_r test_v pre snap h)"
  using assms(2)
proof (induction snap arbitrary: pre h)
  case Nil
  then show ?case by (simp add: tagging_store_def)
next
  case (Cons a snap)
  have stable: "\<And>r vs. test_r (r\<lparr>versions := vs\<rparr>) = test_r r"
    "\<And>r ty. test_r (r\<lparr>type := ty\<rparr>) = test_r r"
    using assms(1) by (simp_all add: ignores_versions_def)
  show ?case
  proof (cases "test_r (h a)")
    case True
    with Cons.prems have "\<forall>b\<in>set pre. \<not> h b = h a" by auto
    then have "list_remove (\<lambda>b. h b = h a) (pre @ a # snap) = Some (pre @ snap)"
      by (intro list_remove_append) auto
    moreover have "tagging_store test_r test_v pre snap h = tagging_store test_r test_v pre (a # snap) h"
      using True by (auto simp: tagging_store_def fun_eq_iff Let_def)
    ultimately show ?thesis using True Cons.IH [OF Cons.prems] by simp
  next
    case False
    let ?h1 = "h(a := keep_versions test_v (h a))"
    let ?h2 = "tag_all ''show'' (pre @ a # snap) ?h1"
    have h2: "\<And>b. ?h2 b = (if b \<in> set (pre @ a # snap) then (?h1 b)\<lparr>type := Some ''show''\<rparr> else ?h1 b)"
      by (simp only: tag_all_eq)
    have t: "\<And>b. test_r (?h2 b) = test_r (h b)"
      unfolding h2 by (simp add: keep_versions_def stable)
    from Cons.prems False have "\<forall>b\<in>set (pre @ [a]). \<not> test_r (?h2 b)"
      by (auto simp: t simp del: fun_upd_apply tag_all.simps)
    from Cons.IH [OF this]
    have "prune_tagging test_r test_v snap (pre @ a # snap) ?h2
        = Inr (pre @ a # filter (\<lambda>a. \<not> test_r (h a)) snap, tagging_store test_r test_v (pre @ [a]) snap ?h2)"
      by (simp add: t del: fun_upd_apply tag_all.simps)
    moreover have "tagging_store test_r test_v (pre @ [a]) snap ?h2 = tagging_store test_r test_v pre (a # snap) h"
    proof
      fix b
      have dw: "dropWhile (\<lambda>a. test_r (?h2 a)) snap = dropWhile (\<lambda>a. test_r (h a)) snap"
        by (simp only: t)
      have ex: "(\<exists>c\<in>set snap. \<not> test_r (?h2 c)) = (\<exists>c\<in>set snap. \<not> test_r (h c))"
        by (simp only: t)
      have sub: "set (dropWhile (\<lambda>a. test_r (h a)) snap) \<subseteq> set snap"
        by (auto dest: set_dropWhileD)
      have lhs: "tagging_store test_r test_v (pre @ [a]) snap ?h2 b
          = (let r = (if b \<in> set snap \<and> \<not> test_r (h b) then keep_versions test_v (?h2 b) else ?h2 b)
             in if (\<exists>c\<in>set snap. \<not> test_r (h c))
                   \<and> (b \<in> set (pre @ [a]) \<or> b \<in> set (dropWhile (\<lambda>a. test_r (h a)) snap))
                then r\<lparr>type := Some ''show''\<rparr> else r)"
        unfolding tagging_store_def dw ex t ..
      have rhs: "tagging_store test_r test_v pre (a # snap) h b
          = (let r = (if b \<in> set (a # snap) \<and> \<not> test_r (h b) then keep_versions test_v (h b) else h b)
             in if b \<in> set pre \<or> b \<in> set (a # snap) then r\<lparr>type := Some ''show''\<rparr> else r)"
        using False by (simp add: tagging_store_def Let_def)
      show "tagging_store test_r test_v (pre @ [a]) snap ?h2 b = tagging_store test_r test_v pre (a # snap) h b"
      proof (cases "b \<in> set (pre @ a # snap)")
        case out: False
        then have "?h2 b = h b" by (simp add: h2)
        with out sub show ?thesis unfolding lhs rhs by (auto simp: Let_def)
      next
        case "in": True
        show ?thesis
        proof (cases "b = a")
          case True
          then have "?h2 b = (keep_versions test_v (h a))\<lparr>type := Some ''show''\<rparr>" by (simp add: h2)
          with True False show ?thesis unfolding lhs rhs by (simp add: Let_def)
        next
          case ne: False
          with "in" have "?h2 b = (h b)\<lparr>type := Some ''show''\<rparr>" by (simp add: h2)
          with ne "in" show ?thesis unfolding lhs rhs by (simp add: Let_def)
        qed
      qed
    qed
    ultimately show ?thesis using False
      by (simp add: prune_versions_filter keep_versions_def [symmetric] del: fun_upd_apply tag_all.simps)
  qed
qed

lemma ignores_versions_tests:
  "ignores_versions no_videos"
  "ignores_versions (misses_seasons s)"
  "ignores_versions (not_a_season s)"
  "ignores_versions (not_an_episode s)"
  by (simp_all add: ignores_versions_def no_videos_def misses_seasons_def not_a_season_def
        not_an_episode_def)

lemma prune_filter:
  assumes "ignores_versions test_r"
  shows "prune test_r test_v l l h
       = Inr (filter (\<lambda>a. \<not> test_r (h a)) l,
              \<lambda>b. if b \<in> set l \<and> \<not> test_r (h b) then keep_versions test_v (h b) else h b)"
  using prune_append [OF assms, of "[]" h test_v l] by simp

lemma tagged_prune:
  assumes "ignores_versions test_r"
  shows "tagged ty (prune test_r test_v l l h)
       = Inr (filter (\<lambda>a. \<not> test_r (h a)) l,
              \<lambda>b. if b \<in> set l \<and> \<not> test_r (h b)
                  then (h b)\<lparr>versions := filter (\<lambda>v. \<not> test_v v) (versions (h b)), type := Some ty\<rparr>
                  else h b)"
  by (simp add: prune_filter [OF assms] tagged_def tag_all_eq keep_versions_def fun_eq_iff)

lemma misses_seasons_spec:
  "distinct s \<Longrightarrow> misses_seasons s x = spec_multi_season_drop s x"
  by (simp add: misses_seasons_def spec_multi_season_drop_def distinct_card)

lemma not_an_episode_single:
  "not_an_episode [x] r = (\<not> single_episode_of x r)"
  by (auto simp: not_an_episode_def single_episode_of_def)

text \<open>
  Claim C3. With more than one requested season (\<open>s\<close> lists them without repetition, and the
  type is not \<open>movie\<close>), \<open>type_filter\<close> returns the releases in their order without those for
  which \<open>|requested - seasons| > |requested| / 2\<close> or \<open>episodes <= 1\<close>. In the store, each release
  that stays has lost exactly the versions that fail the same test and carries type
  \<open>show\<close>; every other dictionary is as it was. No exception is raised.
\<close>

theorem type_filter_multi_season:
  assumes "ty \<noteq> ''movie''" and "1 < length s" and "distinct s"
  shows "type_filter h l ty s e
       = Inr (filter (\<lambda>a. \<not> spec_multi_season_drop s (h a)) l,
              \<lambda>b. if b \<in> set l \<and> \<not> spec_multi_season_drop s (h b)
                  then (h b)\<lparr>versions := filter (\<lambda>v. \<not> spec_multi_season_drop s v) (versions (h b)),
                             type := Some ''show''\<rparr>
                  else h b)"
proof -
  have "type_filter h l ty s e = tagged ''show'' (prune (misses_seasons s) (misses_seasons s) l l h)"
    using assms(1,2) by (simp add: type_filter_def)
  also have "\<dots> = Inr (filter (\<lambda>a. \<not> misses_seasons s (h a)) l,
              \<lambda>b. if b \<in> set l \<and> \<not> misses_seasons s (h b)
                  then (h b)\<lparr>versions := filter (\<lambda>v. \<not> misses_seasons s v) (versions (h b)),
                             type := Some ''show''\<rparr>
                  else h b)"
    by (rule tagged_prune) (rule ignores_versions_tests)
  finally show ?thesis by (simp only: misses_seasons_spec [OF assms(3)])
qed

text \<open>
  Episode 0 is no specific episode for \<open>type_filter\<close>: \<open>not e\<close> holds for 0 as it does for
  None, and the branch of the full season runs.
\<close>

lemma type_filter_episode_zero:
  "ty \<noteq> ''movie'' \<Longrightarrow> \<not> 1 < length s \<Longrightarrow>
   type_filter h l ty s (Some 0) = type_filter h l ty s None"
  by (simp add: type_filter_def falsy_def)

text \<open>
  Claim C2, as amended. For a request of the one season \<open>x\<close> (the list \<open>[x]\<close>) and a
  specific episode \<open>e\<close> other than 0 (so that \<open>not e\<close> is false), with a type other than
  \<open>movie\<close>, \<open>type_filter\<close> keeps exactly the releases with \<open>episodes == 1\<close> that have \<open>x\<close>
  among their seasons (the source tests \<open>seasons - set(release['seasons'])\<close>, the requested
  seasons that the release lacks), and of each release it keeps, exactly the versions of that
  kind. The store also shows which releases are tagged: all from the first kept release of the
  list on.
\<close>

theorem type_filter_single_episode:
  assumes "ty \<noteq> ''movie''" and "\<not> falsy e"
  shows "type_filter h l ty [x] e
       = Inr (filter (\<lambda>a. single_episode_of x (h a)) l,
              \<lambda>b. let r = (if b \<in> set l \<and> single_episode_of x (h b)
                           then (h b)\<lparr>versions := filter (single_episode_of x) (versions (h b))\<rparr>
                           else h b)
                  in if b \<in> set (dropWhile (\<lambda>a. \<not> single_episode_of x (h a)) l)
                     then r\<lparr>type := Some ''show''\<rparr> else r)"
proof -
  let ?t = "not_an_episode [x]"
  have "type_filter h l ty [x] e = prune_tagging ?t ?t l l h"
    using assms by (simp add: type_filter_def)
  also have "\<dots> = Inr (filter (\<lambda>a. \<not> ?t (h a)) l, tagging_store ?t ?t [] l h)"
    using prune_tagging_append [of ?t "[]" h ?t l] by (simp add: ignores_versions_tests)
  also have "tagging_store ?t ?t [] l h
      = (\<lambda>b. let r = (if b \<in> set l \<and> single_episode_of x (h b)
                           then (h b)\<lparr>versions := filter (single_episode_of x) (versions (h b))\<rparr>
                           else h b)
                  in if b \<in> set (dropWhile (\<lambda>a. \<not> single_episode_of x (h a)) l)
                     then r\<lparr>type := Some ''show''\<rparr> else r)"
  proof
    fix b
    have "b \<in> set (dropWhile (\<lambda>a. \<not> single_episode_of x (h a)) l)
        \<Longrightarrow> \<exists>a\<in>set l. single_episode_of x (h a)"
      by (metis dropWhile_eq_Nil_conv empty_iff list.set(1))
    then show "tagging_store ?t ?t [] l h b
      = (let r = (if b \<in> set l \<and> single_episode_of x (h b)
                           then (h b)\<lparr>versions := filter (single_episode_of x) (versions (h b))\<rparr>
                           else h b)
                  in if b \<in> set (dropWhile (\<lambda>a. \<not> single_episode_of x (h a)) l)
                     then r\<lparr>type := Some ''show''\<rparr> else r)"
      by (auto simp: tagging_store_def not_an_episode_single keep_versions_def Let_def)
  qed
  finally show ?thesis by (simp add: not_an_episode_single)
qed

theorem type_filter_multi_season_witness:
  "(case type_filter season_store [0, 1] ''show'' [1, 2, 3, 4] None of
      Inl x \<Rightarrow> False
    | Inr (l, h') \<Rightarrow>
        l = [0] \<and> type (h' 0) = Some ''show''
        \<and> versions (h' 0) = [\<lparr>seasons = [1, 2, 3], episodes = 8, videos = 8\<rparr>]
        \<and> h' 1 = season_store 1)"
  using type_filter_multi_season [of "''show''" "[1, 2, 3, 4]" season_store "[0, 1]" None]
  by (simp add: season_store_def example_release_def spec_multi_season_drop_def)

text \<open>
  Claim C2 as stated fails: a single episode filed under seasons 1 and 2 is kept for a request
  of season 1, although its seasons are not within \<open>{1}\<close>.
\<close>

theorem single_episode_keeps_other_seasons:
  "(case type_filter episode_store [2] ''show'' [1] (Some 3) of
      Inl x \<Rightarrow> False
    | Inr (l, h') \<Rightarrow> l = [2])
   \<and> seasons (episode_store 2) = [1, 2]
   \<and> \<not> spec_single_episode_keeps 1 (episode_store 2)"
  by (simp add: type_filter_def falsy_def not_an_episode_def episode_store_def example_release_def
        spec_single_episode_keeps_def)

theorem type_filter_single_episode_witness:
  "(case type_filter episode_store [0, 1, 2] ''show'' [1] (Some 3) of
      Inl x \<Rightarrow> False
    | Inr (l, h') \<Rightarrow>
        l = [0, 2] \<and> versions (h' 0) = [\<lparr>seasons = [1], episodes = 1, videos = 1\<rparr>]
        \<and> type (h' 0) = Some ''show'' \<and> type (h' 2) = Some ''show'')"
  using type_filter_single_episode [of "''show''" "Some 3" episode_store "[0, 1, 2]" 1]
  by (simp add: episode_store_def example_release_def single_episode_of_def falsy_def)

text \<open>
  Claim C10. For a request of episode 3 of season 1 and the list of a single episode followed
  by a season pack, the pack (address 1) is removed from the returned list, had no type before
  the call and has type \<open>show\<close> after it.
\<close>

theorem removed_release_is_tagged:
  "(case type_filter episode_store [0, 1] ''show'' [1] (Some 3) of
      Inl x \<Rightarrow> False
    | Inr (l, h') \<Rightarrow> l = [0] \<and> type (h' 1) = Some ''show'')
   \<and> type (episode_store 1) = None
   \<and> episodes (episode_store 1) = 10"
  by (simp add: type_filter_def falsy_def not_an_episode_def episode_store_def example_release_def)

section \<open>\<open>match.video\<close>: the patterns against the words of the specification\<close>

lemma lower_dot [simp]: "lower CHR ''.'' = CHR ''.''"
  by (simp add: lower_def)

lemma lower_eq_dot [simp]: "(lower c = CHR ''.'') = (c = CHR ''.'')"
  by (auto simp: lower_def split: if_splits)























section \<open>\<open>releases.sort\<close>: the order of the result\<close>


















section \<open>\<open>releases.print\<close>: the lines and the store\<close>

lemma longer_max: "longer x w = max w (length x)"
  by (simp add: longer_def max_def)

lemma foldl_longer:
  "foldl (\<lambda>w x. longer x w) w0 xs = Max (set (w0 # map length xs))"
proof (induction xs arbitrary: w0)
  case Nil
  then show ?case by simp
next
  case (Cons x xs)
  have "Max (set (longer x w0 # map length xs)) = Max (set (w0 # map length (x # xs)))"
  proof (cases "xs = []")
    case True
    then show ?thesis by (simp add: longer_max)
  next
    case False
    then show ?thesis by (simp add: longer_max max.assoc)
  qed
  with Cons [of "longer x w0"] show ?case by simp
qed

lemma foldl_longer_width: "foldl (\<lambda>w x. longer x w) 0 xs = width xs"
  by (simp only: foldl_longer width_def)

lemma length_le_width: "x \<in> set xs \<Longrightarrow> length x \<le> width xs"
  by (simp add: width_def)

lemma length_pad: "length (pad w x) = max w (length x)"
  by (simp add: pad_def spaces_def)

lemma length_field:
  assumes "i < length list"
  shows "length (field f list h i) = width (column f list h)"
proof -
  from assms have "f (h (list ! i)) \<in> set (column f list h)"
    by (simp add: column_def)
  then have "length (f (h (list ! i))) \<le> width (column f list h)"
    by (rule length_le_width)
  then show ?thesis by (simp add: field_def length_pad)
qed

lemma with_printsize_step:
  "with_printsize R rest (h(a := (h a)\<lparr>printsize := Some (R (size_val (h a)))\<rparr>))
     = with_printsize R (a # rest) h"
  by (rule ext) (simp add: with_printsize_def)

lemma column_step:
  assumes "\<And>r x. f (r\<lparr>printsize := x\<rparr>) = f r"
  shows "column f rest (h(a := (h a)\<lparr>printsize := p\<rparr>)) = column f rest h"
  by (simp add: column_def assms)

lemma column_Cons: "column f (a # rest) h = f (h a) # column f rest h"
  by (simp add: column_def)

lemma first_loop_eq:
  "first_loop R index list (W, h) = (measured R index list W h, with_printsize R list h)"
proof (induction list arbitrary: index W h)
  case Nil
  have "with_printsize R [] h = h" by (rule ext) (simp add: with_printsize_def)
  then show ?case by (simp add: measured_def column_def)
next
  case (Cons a rest)
  define h1 where "h1 = h(a := (h a)\<lparr>printsize := Some (R (size_val (h a)))\<rparr>)"
  define W1 where "W1 = fst (measure_release R index a (W, h))"
  have m: "measure_release R index a (W, h) = (W1, h1)"
    by (simp add: W1_def h1_def measure_release_def Let_def)
  have c: "column f rest h1 = column f rest h" if "\<And>r x. f (r\<lparr>printsize := x\<rparr>) = f r" for f
    unfolding h1_def using that by (rule column_step)
  have w: "with_printsize R rest h1 = with_printsize R (a # rest) h"
    unfolding h1_def by (rule with_printsize_step)
  have "[index..<index + Suc (length rest)] = index # [Suc index..<index + Suc (length rest)]"
    by (rule upt_conv_Cons) simp
  then have u: "[index..<index + length (a # rest)] = index # [index + 1..<index + 1 + length rest]"
    by (simp del: upt_Suc)
  have cs: "column (\<lambda>r. str_int (resolution r)) rest h1 = column (\<lambda>r. str_int (resolution r)) rest h"
    "column (\<lambda>r. join ''/'' (cached r)) rest h1 = column (\<lambda>r. join ''/'' (cached r)) rest h"
    "column title rest h1 = column title rest h"
    "column (\<lambda>r. R (size_val r)) rest h1 = column (\<lambda>r. R (size_val r)) rest h"
    "column (\<lambda>r. join ''/'' (languages r)) rest h1 = column (\<lambda>r. join ''/'' (languages r)) rest h"
    "column (\<lambda>r. str_int (seeders r)) rest h1 = column (\<lambda>r. str_int (seeders r)) rest h"
    by (rule c, simp)+
  have "measured R (index + 1) rest W1 h1 = measured R index (a # rest) W h"
    unfolding measured_def u cs column_Cons
    by (simp add: W1_def measure_release_def Let_def)
  with Cons [of "index + 1" W1 h1] m w show ?case by simp
qed

lemma second_loop_eq:
  assumes "\<forall>a\<in>set list. printsize (h a) = Some (p (h a))"
  shows "second_loop index list W h strings
     = Inr (strings @ map (\<lambda>j. line W (index + j) (h (list ! j)) (p (h (list ! j)))) [0..<length list])"
  using assms
proof (induction list arbitrary: index strings)
  case Nil
  then show ?case by simp
next
  case (Cons a rest)
  have "map (\<lambda>j. line W (index + j) (h ((a # rest) ! j)) (p (h ((a # rest) ! j)))) [0..<length (a # rest)]
      = line W index (h a) (p (h a))
        # map (\<lambda>j. line W (index + 1 + j) (h (rest ! j)) (p (h (rest ! j)))) [0..<length rest]"
    by (simp add: map_upt_Suc del: upt_Suc)
  with Cons.IH [of "index + 1" "strings @ [line W index (h a) (p (h a))]"] Cons.prems
  show ?case by simp
qed

lemma with_printsize_fields:
  "title (with_printsize R list h a) = title (h a)"
  "resolution (with_printsize R list h a) = resolution (h a)"
  "languages (with_printsize R list h a) = languages (h a)"
  "cached (with_printsize R list h a) = cached (h a)"
  "seeders (with_printsize R list h a) = seeders (h a)"
  "source (with_printsize R list h a) = source (h a)"
  "size_val (with_printsize R list h a) = size_val (h a)"
  by (simp_all add: with_printsize_def)

lemma with_printsize_printsize:
  "a \<in> set list \<Longrightarrow> printsize (with_printsize R list h a) = Some (R (size_val (h a)))"
  by (simp add: with_printsize_def)

lemma measured_no_widths:
  "measured R 0 list no_widths h =
     \<lparr>longest_res = width (column (\<lambda>r. str_int (resolution r)) list h),
      longest_cached = width (column (\<lambda>r. join ''/'' (cached r)) list h),
      longest_title = width (column title list h),
      longest_size = width (column (\<lambda>r. R (size_val r)) list h),
      longest_langs = width (column (\<lambda>r. join ''/'' (languages r)) list h),
      longest_index = width (map (\<lambda>j. str_nat (j + 1)) [0..<length list]),
      longest_seeders = width (column (\<lambda>r. str_int (seeders r)) list h)\<rparr>"
  by (simp add: measured_def no_widths_def foldl_longer_width)

lemma line_rendered:
  "line (measured R 0 list no_widths h) i (with_printsize R list h (list ! i))
       (R (size_val (h (list ! i))))
     = rendered R list h i"
  unfolding measured_no_widths
  by (simp add: line_def rendered_def field_def pad_def index_field_def with_printsize_fields)

lemma print_eq:
  "print R list h = Inr (map (rendered R list h) [0..<length list], with_printsize R list h)"
proof -
  let ?h = "with_printsize R list h"
  let ?W = "measured R 0 list no_widths h"
  have "\<forall>a\<in>set list. printsize (?h a) = Some (R (size_val (?h a)))"
    by (simp add: with_printsize_printsize with_printsize_fields)
  then have "second_loop 0 list ?W ?h []
      = Inr ([] @ map (\<lambda>j. line ?W (0 + j) (?h (list ! j)) (R (size_val (?h (list ! j))))) [0..<length list])"
    by (rule second_loop_eq)
  then have "second_loop 0 list ?W ?h [] = Inr (map (rendered R list h) [0..<length list])"
    by (simp add: with_printsize_fields line_rendered)
  moreover have "first_loop R 0 list (no_widths, h) = (?W, ?h)"
    by (rule first_loop_eq)
  ultimately show ?thesis
    by (simp add: print_def)
qed

lemma str_nat_1: "str_nat (Suc 0) = ''1''"
  by code_simp

lemma str_nat_2: "str_nat (Suc (Suc 0)) = ''2''"
  by code_simp

lemma str_int_1080: "str_int 1080 = ''1080''"
  by code_simp

lemma str_int_12: "str_int 12 = ''12''"
  by code_simp

text \<open>
  Claim C8. For every list and store, \<open>releases.print\<close> returns its lines, and in the store
  after the call every release of the list is the release it was with the key \<open>printsize\<close>
  set to the rendering of its rounded size; every other key of these releases, and every
  release that is not in the list, is as before. \<open>str_round\<close> stands for
  \<open>str(round(size, 2))\<close>.
\<close>

theorem print_changes_printsize_only:
  "\<exists>strings h'. print str_round list h = Inr (strings, h')
     \<and> (\<forall>a. h' a = (if a \<in> set list then (h a)\<lparr>printsize := Some (str_round (size_val (h a)))\<rparr>
                      else h a))"
  by (simp add: print_eq with_printsize_def)

text \<open>
  The statement for the list of the release at address 0: it gets its \<open>printsize\<close>, the
  release at address 1 is untouched.
\<close>

theorem print_changes_printsize_only_witness:
  "\<forall>R. \<exists>strings h'. print R [0] season_store = Inr (strings, h')
     \<and> h' 0 = (season_store 0)\<lparr>printsize := Some (R (3 / 2))\<rparr> \<and> h' 1 = season_store 1"
proof
  fix R
  from print_changes_printsize_only [of R "[0]" season_store]
  show "\<exists>strings h'. print R [0] season_store = Inr (strings, h')
     \<and> h' 0 = (season_store 0)\<lparr>printsize := Some (R (3 / 2))\<rparr> \<and> h' 1 = season_store 1"
    by (auto simp: season_store_def example_release_def)
qed

text \<open>
  Claim C8 as stated fails: the release at address 0 has no \<open>printsize\<close> before the call
  and has one after it, so its dictionary is not the one it was.
\<close>

theorem print_adds_printsize:
  "\<forall>R. (case print R [0] season_store of
          Inl x \<Rightarrow> False
        | Inr (strings, h') \<Rightarrow>
            printsize (season_store 0) = None \<and> printsize (h' 0) = Some (R (3 / 2))
            \<and> h' 0 \<noteq> season_store 0)"
  by (simp add: print_def measure_release_def Let_def season_store_def example_release_def)

text \<open>
  Claim C9. For every list and store, \<open>releases.print\<close> returns one line for each release,
  in the order of the list, and line number i (from 0, below the length of the list) is
  \<open>rendered\<close>: the index i + 1, \<open>) \<close>, the spaces that bring the index to the width of the
  longest index, then \<open>resolution: \<close> and the resolution, \<open> | languages: \<close> and the
  languages joined by slashes, \<open> | title: \<close> and the title, \<open> | size: \<close> and the rendering
  of the rounded size, \<open> | cached: \<close> and the cached services joined by slashes,
  \<open> | seeders: \<close> and the seeders, each of these padded with spaces on the right to the
  greatest length in its column over the whole list, and last \<open> | source: \<close> and the source.
  The padded field of a column has the same length in every line, the width of the column; so
  has the title in particular. \<open>str_round\<close> stands for \<open>str(round(size, 2))\<close>.
\<close>

theorem print_lines:
  "(\<exists>h'. print str_round list h = Inr (map (rendered str_round list h) [0..<length list], h'))
   \<and> (\<forall>i<length list. length (field f list h i) = width (column f list h))"
  by (simp add: print_eq length_field)

text \<open>
  The statement for two releases whose titles have 11 and 17 characters: the two lines, and
  the two title fields of 17 characters.
\<close>

theorem print_lines_witness:
  "\<forall>R. (\<exists>h'. print R [0, 1] episode_store
            = Inr ([''1) resolution: 1080 | languages: EN | title: Show.S01E03       | size: '' @ R (3 / 2)
                      @ '' | cached: RD | seeders: 12 | source: [torrentio]'',
                    ''2) resolution: 1080 | languages: EN | title: Show.S01.Complete | size: '' @ R (3 / 2)
                      @ '' | cached: RD | seeders: 12 | source: [torrentio]''], h'))
     \<and> length (field title [0, 1] episode_store 0) = 17
     \<and> length (field title [0, 1] episode_store 1) = 17"
proof
  fix R
  from print_lines [of R "[0, 1]" episode_store title]
  show "(\<exists>h'. print R [0, 1] episode_store
            = Inr ([''1) resolution: 1080 | languages: EN | title: Show.S01E03       | size: '' @ R (3 / 2)
                      @ '' | cached: RD | seeders: 12 | source: [torrentio]'',
                    ''2) resolution: 1080 | languages: EN | title: Show.S01.Complete | size: '' @ R (3 / 2)
                      @ '' | cached: RD | seeders: 12 | source: [torrentio]''], h'))
     \<and> length (field title [0, 1] episode_store 0) = 17
     \<and> length (field title [0, 1] episode_store 1) = 17"
    by (simp add: rendered_def index_field_def field_def pad_def width_def column_def spaces_def
          episode_store_def example_release_def str_nat_1 str_nat_2 str_int_1080 str_int_12
          numeral_2_eq_2 less_Suc_eq)
qed

text \<open>
  Claim C9 as stated fails: the line of the code has the label \<open>resolution: \<close> before the
  resolution, which the line of the specification has not.
\<close>

theorem print_labels_resolution:
  "\<forall>R. (case print R [0] season_store of
          Inl x \<Rightarrow> False
        | Inr (strings, h') \<Rightarrow>
            strings = [''1) resolution: 1080 | languages: EN | title: Show.S01-S02 | size: '' @ R (3 / 2)
                        @ '' | cached: RD | seeders: 12 | source: [torrentio]'']
            \<and> spec_line R [0] season_store 0
                = ''1) 1080 | languages: EN | title: Show.S01-S02 | size: '' @ R (3 / 2)
                    @ '' | cached: RD | seeders: 12 | source: [torrentio]''
            \<and> strings \<noteq> [spec_line R [0] season_store 0])"
  by (simp add: print_def measure_release_def Let_def season_store_def example_release_def
        line_def longer_def spaces_def no_widths_def spec_line_def field_def pad_def width_def column_def
        str_nat_1 str_int_1080 str_int_12)

end
